theory Spec2Isabelle
  imports
    Complex_Main
    "HOL-Library.Char_ord"
    "HOL-Library.List_Lexorder"
    "HOL-Library.Multiset"
    "HOL-Library.Product_Lexorder"
    "HOL-Library.Sublist"
begin

section \<open>The sales dashboard of \<^verbatim>\<open>app.py\<close>\<close>

text \<open>
  \<^verbatim>\<open>app.py\<close> is a straight-line script: it builds a table of orders, reads two
  multi-select widgets, keeps the rows that match both selections and computes a fixed
  list of aggregations of the kept rows. The table is a list of rows in row order; a
  column \<^verbatim>\<open>df['X']\<close> is \<open>map X df\<close>.

  Numbers. \<^verbatim>\<open>OrderID\<close>, \<^verbatim>\<open>Quantity\<close> and \<^verbatim>\<open>CustomerID\<close> are integers;
  the values drawn stay far inside 64 bits (at most 1000 rows of quantities below 10), so
  they are \<open>int\<close>. \<^verbatim>\<open>UnitPrice\<close> and \<^verbatim>\<open>TotalPrice\<close> are binary floating-point
  numbers in the program. They are taken here as exact reals, and \<open>total_sales\<close> and the
  group sums below add them exactly: a statement about these sums is a statement of exact
  arithmetic. Where the rounding of the program's additions decides a property, the sums
  are computed a second time with every addition rounded: see \<open>round64\<close>. The one
  non-finite value the script can produce, the mean of an empty column, is kept: see
  \<open>float64\<close>.
\<close>

subsection \<open>Rows\<close>

record order =
  OrderID :: int
  Date :: int
  Region :: string
  Category :: string
  Product :: string
  Quantity :: int
  UnitPrice :: real
  CustomerID :: int
  TotalPrice :: real

text \<open>
  \<open>Date\<close> is the number of the calendar day: the script draws from a range of days and
  every timestamp is a midnight, so \<^verbatim>\<open>.dt.date\<close> only changes the representation.
\<close>

definition dt_date :: "int \<Rightarrow> int" where
  "dt_date d = d"

subsection \<open>\<^verbatim>\<open>load_data\<close>\<close>

text \<open>
  The seven random columns come from the generator seeded with 42. Their values are
  fixed by the seed but are not computed here: they are a parameter, one function per
  column giving the value drawn for row \<open>i\<close> (counted from 0).
\<close>

record draws =
  date_draw :: "nat \<Rightarrow> int"
  region_draw :: "nat \<Rightarrow> string"
  category_draw :: "nat \<Rightarrow> string"
  product_draw :: "nat \<Rightarrow> nat"
  quantity_draw :: "nat \<Rightarrow> int"
  unitprice_draw :: "nat \<Rightarrow> real"
  customer_draw :: "nat \<Rightarrow> int"

text \<open>\<^verbatim>\<open>str(i)\<close> for a non-negative integer: its decimal digits.\<close>

fun str :: "nat \<Rightarrow> string" where
  "str n = (if n < 10 then [char_of (48 + n)] else str (n div 10) @ [char_of (48 + n mod 10)])"

definition product_name :: "nat \<Rightarrow> string" where
  "product_name i = ''Product_'' @ str i"

definition n_rows :: nat where
  "n_rows = 1000"

text \<open>
  Row \<open>i\<close> of the table: \<^verbatim>\<open>OrderID\<close> is \<^verbatim>\<open>range(1, n_rows + 1)\<close>, and
  \<^verbatim>\<open>TotalPrice\<close> is assigned as \<^verbatim>\<open>Quantity * UnitPrice\<close> after the frame is built.
\<close>

definition load_row :: "draws \<Rightarrow> nat \<Rightarrow> order" where
  "load_row g i =
     \<lparr> OrderID = int i + 1,
       Date = date_draw g i,
       Region = region_draw g i,
       Category = category_draw g i,
       Product = product_name (product_draw g i),
       Quantity = quantity_draw g i,
       UnitPrice = unitprice_draw g i,
       CustomerID = customer_draw g i,
       TotalPrice = of_int (quantity_draw g i) * unitprice_draw g i \<rparr>"

text \<open>The table with \<open>n\<close> rows; the script's table is \<open>load_data g\<close>.\<close>

definition load_rows :: "draws \<Rightarrow> nat \<Rightarrow> order list" where
  "load_rows g n = map (load_row g) [0..<n]"

definition load_data :: "draws \<Rightarrow> order list" where
  "load_data g = load_rows g n_rows"

subsection \<open>The filter\<close>

text \<open>
  \<^verbatim>\<open>df[(df['Region'].isin(regions)) & (df['Category'].isin(categories))]\<close>: two
  boolean columns, their element-wise conjunction, and the rows at which the mask holds.
  A selection is the list the widget returns.
\<close>

definition isin :: "'a list \<Rightarrow> 'a list \<Rightarrow> bool list" where
  "isin col vals = map (\<lambda>x. x \<in> set vals) col"

definition mask_and :: "bool list \<Rightarrow> bool list \<Rightarrow> bool list" where
  "mask_and a b = map (\<lambda>(p, q). p \<and> q) (zip a b)"

definition select_rows :: "'a list \<Rightarrow> bool list \<Rightarrow> 'a list" where
  "select_rows df keep = map fst (filter snd (zip df keep))"

definition df_filtered :: "order list \<Rightarrow> string list \<Rightarrow> string list \<Rightarrow> order list" where
  "df_filtered df regions categories =
     select_rows df (mask_and (isin (map Region df) regions) (isin (map Category df) categories))"

text \<open>
  \<^verbatim>\<open>Series.unique()\<close>: the distinct values in order of first appearance. It gives the
  options and the default of both widgets.
\<close>

fun unique :: "'a list \<Rightarrow> 'a list" where
  "unique [] = []"
| "unique (x # xs) = x # filter (\<lambda>y. y \<noteq> x) (unique xs)"

subsection \<open>The three KPIs\<close>

text \<open>
  A floating-point result: a finite number or NaN. \<^verbatim>\<open>Series.sum()\<close> of an empty
  column is 0; \<^verbatim>\<open>Series.mean()\<close> of an empty column is NaN and raises nothing;
  \<^verbatim>\<open>Series.nunique()\<close> counts the distinct values.
\<close>

datatype float64 = NaN | Fin real

definition series_sum :: "real list \<Rightarrow> real" where
  "series_sum xs = sum_list xs"

definition series_mean :: "real list \<Rightarrow> float64" where
  "series_mean xs = (if xs = [] then NaN else Fin (sum_list xs / of_nat (length xs)))"

definition nunique :: "'a list \<Rightarrow> nat" where
  "nunique xs = length (remdups xs)"

definition total_sales :: "order list \<Rightarrow> real" where
  "total_sales v = series_sum (map TotalPrice v)"

definition avg_order_value :: "order list \<Rightarrow> float64" where
  "avg_order_value v = series_mean (map TotalPrice v)"

definition total_orders :: "order list \<Rightarrow> nat" where
  "total_orders v = nunique (map OrderID v)"

text \<open>
  The script shows the three values with \<^verbatim>\<open>f"${x:,.2f}"\<close>; formatting a NaN gives the
  text \<^verbatim>\<open>$nan\<close> and raises nothing. The text formatting is not modelled.
\<close>

subsection \<open>Group-by aggregations\<close>

text \<open>
  \<^verbatim>\<open>df.groupby(key)\<close> with the default \<^verbatim>\<open>sort=True\<close>: one group for each key
  value that occurs in the frame, the groups in ascending key order, each holding its
  rows in frame order. Strings compare lexicographically by character, pairs of keys
  lexicographically by component.
\<close>

definition groupby :: "('r \<Rightarrow> 'k::linorder) \<Rightarrow> 'r list \<Rightarrow> ('k \<times> 'r list) list" where
  "groupby key df = map (\<lambda>k. (k, filter (\<lambda>r. key r = k) df)) (sort (remdups (map key df)))"

text \<open>\<^verbatim>\<open>.groupby(key)[col].sum()\<close>: the sum of the column within each group.\<close>

definition groupby_sum ::
  "('r \<Rightarrow> 'k::linorder) \<Rightarrow> ('r \<Rightarrow> 'v::comm_monoid_add) \<Rightarrow> 'r list \<Rightarrow> ('k \<times> 'v) list" where
  "groupby_sum key col df = map (\<lambda>(k, rows). (k, sum_list (map col rows))) (groupby key df)"

text \<open>
  \<^verbatim>\<open>Series.nlargest(n)\<close> with the default \<^verbatim>\<open>keep='first'\<close>: the entries by
  decreasing value, entries of equal value in the order they have in the series, cut
  after \<open>n\<close>. As in the library, the order is a stable ascending sort of the negated
  values.
\<close>

definition nlargest :: "nat \<Rightarrow> ('k \<times> 'v::linordered_ab_group_add) list \<Rightarrow> ('k \<times> 'v) list" where
  "nlargest n s = take n (sort_key (\<lambda>(k, v). - v) s)"

definition daily_sales :: "order list \<Rightarrow> (int \<times> real) list" where
  "daily_sales v = groupby_sum (\<lambda>r. dt_date (Date r)) TotalPrice v"

definition sales_trend_category :: "order list \<Rightarrow> ((int \<times> string) \<times> real) list" where
  "sales_trend_category v = groupby_sum (\<lambda>r. (dt_date (Date r), Category r)) TotalPrice v"

definition sales_by_region :: "order list \<Rightarrow> (string \<times> real) list" where
  "sales_by_region v = groupby_sum Region TotalPrice v"

definition sales_by_category_region :: "order list \<Rightarrow> ((string \<times> string) \<times> real) list" where
  "sales_by_category_region v = groupby_sum (\<lambda>r. (Category r, Region r)) TotalPrice v"

definition sales_by_category :: "order list \<Rightarrow> (string \<times> real) list" where
  "sales_by_category v = groupby_sum Category TotalPrice v"

definition product_sales :: "order list \<Rightarrow> (string \<times> real) list" where
  "product_sales v = nlargest 10 (groupby_sum Product TotalPrice v)"

definition quantity_by_product :: "order list \<Rightarrow> (string \<times> int) list" where
  "quantity_by_product v = nlargest 10 (groupby_sum Product Quantity v)"

text \<open>
  \<^verbatim>\<open>.groupby('CustomerID').agg(TotalSpending=sum of TotalPrice, OrderCount=nunique of
  OrderID)\<close>: one row per customer with both reductions.
\<close>

definition customer_spending :: "order list \<Rightarrow> (int \<times> real \<times> nat) list" where
  "customer_spending v =
     map (\<lambda>(k, rows). (k, sum_list (map TotalPrice rows), nunique (map OrderID rows)))
       (groupby CustomerID v)"

subsection \<open>Sums as the program rounds them\<close>

text \<open>
  The binary length of a positive integer, and from it \<open>\<lfloor>log\<^sub>2 a\<rfloor>\<close> for a positive real.
\<close>

function bit_length :: "int \<Rightarrow> int" where
  "bit_length n = (if n \<le> 0 then 0 else bit_length (n div 2) + 1)"
  by pat_completeness auto
termination
  by (relation "measure nat") auto

declare bit_length.simps [simp del]

definition floor_log2 :: "real \<Rightarrow> int" where
  "floor_log2 a =
     (if 1 \<le> a then bit_length \<lfloor>a\<rfloor> - 1
      else - bit_length (\<lceil>1 / a\<rceil> - 1))"

text \<open>\<open>scale2 x e\<close> is \<open>x \<sqdot> 2\<^sup>e\<close>.\<close>

definition scale2 :: "real \<Rightarrow> int \<Rightarrow> real" where
  "scale2 x e = (if 0 \<le> e then x * 2 ^ nat e else x / 2 ^ nat (- e))"

definition round_half_even :: "real \<Rightarrow> int" where
  "round_half_even y =
     (let f = \<lfloor>y\<rfloor>; d = y - of_int f
      in if d < 1 / 2 then f else if 1 / 2 < d then f + 1 else if even f then f else f + 1)"

text \<open>
  The binary64 number nearest to a real, ties to the even significand: the significand
  has 53 bits. Exponent limits are left out (no subnormal numbers, no overflow); the
  script's prices and their sums lie between 10 and \<open>10\<^sup>6\<close>.
\<close>

definition round64 :: "real \<Rightarrow> real" where
  "round64 x =
     (if x = 0 then 0
      else let e = floor_log2 \<bar>x\<bar> - 52
           in sgn x * scale2 (of_int (round_half_even (scale2 \<bar>x\<bar> (- e)))) e)"

definition f64_add :: "real \<Rightarrow> real \<Rightarrow> real" where
  "f64_add a b = round64 (a + b)"

text \<open>
  A column added from left to right, starting from 0, every addition rounded. This is
  the order in which the libraries add a column of fewer than eight values and a group
  of one row. Longer columns and groups are added in blocks or with a correction term,
  which gives other roundings; that is not modelled, and \<open>f64_sum\<close> is applied below to
  a three-row view with one row per category only.
\<close>

definition f64_sum :: "real list \<Rightarrow> real" where
  "f64_sum xs = foldl f64_add 0 xs"

definition total_sales_f64 :: "order list \<Rightarrow> real" where
  "total_sales_f64 v = f64_sum (map TotalPrice v)"

definition sales_by_category_f64 :: "order list \<Rightarrow> (string \<times> real) list" where
  "sales_by_category_f64 v =
     map (\<lambda>(k, rows). (k, f64_sum (map TotalPrice rows))) (groupby Category v)"

subsection \<open>What a top-\<open>n\<close> list is\<close>

text \<open>
  The reading of "the \<open>n\<close> entries of the series \<open>s\<close> with the largest values, in
  descending order" that the rankings are checked against: \<open>l\<close> has \<open>n\<close> entries, or
  all of them when \<open>s\<close> has fewer; its entries are entries of \<open>s\<close> with different keys;
  their values fall along the list; and no entry left out has a larger value than an
  entry of \<open>l\<close>.
\<close>

definition top_n_desc :: "nat \<Rightarrow> ('k \<times> 'v::linorder) list \<Rightarrow> ('k \<times> 'v) list \<Rightarrow> bool" where
  "top_n_desc n s l \<longleftrightarrow>
     length l = min n (length s) \<and> distinct (map fst l) \<and> set l \<subseteq> set s \<and>
     sorted_wrt (\<lambda>a b. snd b \<le> snd a) l \<and>
     (\<forall>x \<in> set s. x \<notin> set l \<longrightarrow> (\<forall>y \<in> set l. snd x \<le> snd y))"

subsection \<open>Concrete inputs\<close>

text \<open>
  Four rows inside the ranges the script draws from: days 2023-01-01 and 2023-01-02
  (numbered from 1970-01-01), two regions, two categories, three products.
\<close>

definition four_draws :: draws where
  "four_draws =
     \<lparr> date_draw = (\<lambda>i. 19358 + int (i mod 2)),
       region_draw = (\<lambda>i. if even i then ''North'' else ''South''),
       category_draw = (\<lambda>i. if i < 2 then ''Electronics'' else ''Books''),
       product_draw = (\<lambda>i. 1 + i mod 3),
       quantity_draw = (\<lambda>i. 1 + int i),
       unitprice_draw = (\<lambda>i. 10 + real i / 2),
       customer_draw = (\<lambda>i. 100 + int (i mod 2)) \<rparr>"

text \<open>
  Eleven rows of one region and one category, one product each. The first row sells 9
  units at 10; every other row sells 1 unit at a price above 90.
\<close>

definition eleven_draws :: draws where
  "eleven_draws =
     \<lparr> date_draw = (\<lambda>i. 19358),
       region_draw = (\<lambda>i. ''North''),
       category_draw = (\<lambda>i. ''Books''),
       product_draw = (\<lambda>i. i + 1),
       quantity_draw = (\<lambda>i. if i = 0 then 9 else 1),
       unitprice_draw = (\<lambda>i. if i = 0 then 10 else 90 + real i / 2),
       customer_draw = (\<lambda>i. 100) \<rparr>"

text \<open>
  Three rows of one region, one category each, one unit sold per row at the binary64
  prices nearest to 10.1, 19.99 and 33.3. With quantity 1 the total price of a row is
  its unit price in the program's arithmetic as well.
\<close>

definition three_draws :: draws where
  "three_draws =
     \<lparr> date_draw = (\<lambda>i. 19358),
       region_draw = (\<lambda>i. ''North''),
       category_draw =
         (\<lambda>i. if i = 0 then ''Books'' else if i = 1 then ''Electronics'' else ''Clothing''),
       product_draw = (\<lambda>i. i + 1),
       quantity_draw = (\<lambda>i. 1),
       unitprice_draw =
         (\<lambda>i. if i = 0 then round64 (101 / 10)
              else if i = 1 then round64 (1999 / 100) else round64 (333 / 10)),
       customer_draw = (\<lambda>i. 100) \<rparr>"

section \<open>The filter\<close>

lemma select_rows_map: "select_rows xs (map P xs) = filter P xs"
  unfolding select_rows_def by (induction xs) auto

lemma mask_and_map: "mask_and (map P xs) (map Q xs) = map (\<lambda>x. P x \<and> Q x) xs"
  unfolding mask_and_def by (induction xs) auto

lemma df_filtered_filter:
  "df_filtered df regions categories =
     filter (\<lambda>r. Region r \<in> set regions \<and> Category r \<in> set categories) df"
  unfolding df_filtered_def isin_def
  by (simp add: mask_and_map select_rows_map o_def)

lemma df_filtered_subseq: "subseq (df_filtered df regions categories) df"
  by (simp add: df_filtered_filter)

lemma set_unique: "set (unique xs) = set xs"
  by (induction xs) auto

lemma df_filtered_full:
  assumes "Region ` set df \<subseteq> set regions" and "Category ` set df \<subseteq> set categories"
  shows "df_filtered df regions categories = df"
  unfolding df_filtered_filter using assms by (intro filter_True) auto

text \<open>
  C2. The mask keeps exactly the rows whose region is one of the selected regions and
  whose category is one of the selected categories, in frame order. With the selections
  North and Electronics every kept row has that region and that category, and the total
  sales of the view is the sum of \<^verbatim>\<open>TotalPrice\<close> over exactly those rows of the frame.
\<close>

theorem df_filtered_conjunctive:
  "df_filtered df regions categories =
     filter (\<lambda>r. Region r \<in> set regions \<and> Category r \<in> set categories) df
   \<and> subseq (df_filtered df regions categories) df
   \<and> (\<forall>r \<in> set (df_filtered df [''North''] [''Electronics'']).
         Region r = ''North'' \<and> Category r = ''Electronics'')
   \<and> total_sales (df_filtered df [''North''] [''Electronics'']) =
       sum_list (map TotalPrice
         (filter (\<lambda>r. Region r = ''North'' \<and> Category r = ''Electronics'') df))"
proof (intro conjI)
  show "df_filtered df regions categories =
     filter (\<lambda>r. Region r \<in> set regions \<and> Category r \<in> set categories) df"
    by (rule df_filtered_filter)
  show "subseq (df_filtered df regions categories) df"
    by (rule df_filtered_subseq)
  show "\<forall>r \<in> set (df_filtered df [''North''] [''Electronics'']).
         Region r = ''North'' \<and> Category r = ''Electronics''"
    by (simp add: df_filtered_filter)
  show "total_sales (df_filtered df [''North''] [''Electronics'']) =
       sum_list (map TotalPrice
         (filter (\<lambda>r. Region r = ''North'' \<and> Category r = ''Electronics'') df))"
    by (simp add: df_filtered_filter total_sales_def series_sum_def)
qed

theorem df_filtered_conjunctive_witness:
  "df_filtered (load_rows four_draws 4) [''North''] [''Electronics''] = [load_row four_draws 0]
   \<and> Region (load_row four_draws 0) = ''North''
   \<and> Category (load_row four_draws 0) = ''Electronics''
   \<and> total_sales (df_filtered (load_rows four_draws 4) [''North''] [''Electronics'']) = 10"
proof -
  have v: "df_filtered (load_rows four_draws 4) [''North''] [''Electronics'']
      = [load_row four_draws 0]"
    by code_simp
  have r: "load_row four_draws 0
      \<in> set (df_filtered (load_rows four_draws 4) [''North''] [''Electronics''])"
    by (simp add: v)
  have t: "TotalPrice (load_row four_draws 0) = 10"
    by code_simp
  from df_filtered_conjunctive [of "load_rows four_draws 4" "[]" "[]"] r
  have "Region (load_row four_draws 0) = ''North''
      \<and> Category (load_row four_draws 0) = ''Electronics''"
    by blast
  then show ?thesis
    by (simp add: v t total_sales_def series_sum_def)
qed

text \<open>
  C3. A filtered view never holds a row that is not in the frame. When each selection
  holds exactly the values of its column that occur in the frame, the view is the frame,
  so the three KPIs of the view are those of the frame; the widgets' default selection
  is such a pair.
\<close>

theorem df_filtered_subset_and_full:
  "subseq (df_filtered df regions categories) df
   \<and> set (df_filtered df regions categories) \<subseteq> set df
   \<and> (set regions = Region ` set df \<and> set categories = Category ` set df \<longrightarrow>
        df_filtered df regions categories = df
        \<and> total_sales (df_filtered df regions categories) = total_sales df
        \<and> avg_order_value (df_filtered df regions categories) = avg_order_value df
        \<and> total_orders (df_filtered df regions categories) = total_orders df)
   \<and> df_filtered df (unique (map Region df)) (unique (map Category df)) = df"
proof (intro conjI impI)
  show "subseq (df_filtered df regions categories) df"
    by (rule df_filtered_subseq)
  show "set (df_filtered df regions categories) \<subseteq> set df"
    by (simp add: df_filtered_filter)
  show "df_filtered df (unique (map Region df)) (unique (map Category df)) = df"
    by (rule df_filtered_full) (simp_all add: set_unique)
next
  assume full: "set regions = Region ` set df \<and> set categories = Category ` set df"
  then show same: "df_filtered df regions categories = df"
    by (intro df_filtered_full) simp_all
  show "total_sales (df_filtered df regions categories) = total_sales df"
    "avg_order_value (df_filtered df regions categories) = avg_order_value df"
    "total_orders (df_filtered df regions categories) = total_orders df"
    by (simp_all only: same)
qed

theorem df_filtered_subset_and_full_witness:
  "set [''South'', ''North''] = Region ` set (load_rows four_draws 4)
   \<and> set [''Books'', ''Electronics''] = Category ` set (load_rows four_draws 4)
   \<and> df_filtered (load_rows four_draws 4) [''South'', ''North''] [''Books'', ''Electronics'']
       = load_rows four_draws 4
   \<and> total_sales (df_filtered (load_rows four_draws 4)
         [''South'', ''North''] [''Books'', ''Electronics'']) = 110
   \<and> avg_order_value (df_filtered (load_rows four_draws 4)
         [''South'', ''North''] [''Books'', ''Electronics'']) = Fin (55 / 2)
   \<and> total_orders (df_filtered (load_rows four_draws 4)
         [''South'', ''North''] [''Books'', ''Electronics'']) = 4"
proof -
  have rs: "set [''South'', ''North''] = Region ` set (load_rows four_draws 4)"
    by code_simp
  have cs: "set [''Books'', ''Electronics''] = Category ` set (load_rows four_draws 4)"
    by code_simp
  have k1: "total_sales (load_rows four_draws 4) = 110"
    by code_simp
  have k2: "avg_order_value (load_rows four_draws 4) = Fin (55 / 2)"
    by code_simp
  have k3: "total_orders (load_rows four_draws 4) = 4"
    by code_simp
  from df_filtered_subset_and_full
    [of "load_rows four_draws 4" "[''South'', ''North'']" "[''Books'', ''Electronics'']"] rs cs
  have "df_filtered (load_rows four_draws 4) [''South'', ''North''] [''Books'', ''Electronics'']
      = load_rows four_draws 4"
    by blast
  with rs cs k1 k2 k3 show ?thesis
    by simp
qed

section \<open>Rows of the loaded table\<close>

lemma load_rows_total_price:
  "r \<in> set (load_rows g n) \<Longrightarrow> TotalPrice r = of_int (Quantity r) * UnitPrice r"
  by (auto simp: load_rows_def load_row_def)

lemma distinct_OrderID: "distinct (map OrderID (load_rows g n))"
proof -
  have "map OrderID (load_rows g n) = map (\<lambda>i. int i + 1) [0..<n]"
    by (simp add: load_rows_def load_row_def o_def)
  moreover have "distinct (map (\<lambda>i. int i + 1) [0..<n])"
    by (simp add: distinct_map inj_on_def)
  ultimately show ?thesis by simp
qed

lemma nunique_distinct: "distinct xs \<Longrightarrow> nunique xs = length xs"
  by (simp add: nunique_def)

text \<open>
  C4. In the loaded table of any number of rows (the script's has \<open>n_rows\<close>), and in
  every filtered view of it, the total price of each row is its quantity times its unit
  price. A filtered view of any frame is a subsequence of the frame: its rows are rows
  of the frame, unchanged and in the same order.
\<close>

theorem total_price_invariant:
  "(\<forall>r \<in> set (load_rows g n). TotalPrice r = of_int (Quantity r) * UnitPrice r)
   \<and> (\<forall>r \<in> set (df_filtered (load_rows g n) regions categories).
         TotalPrice r = of_int (Quantity r) * UnitPrice r)
   \<and> (\<forall>r \<in> set (df_filtered (load_data g) regions categories).
         TotalPrice r = of_int (Quantity r) * UnitPrice r)
   \<and> subseq (df_filtered df regions categories) df"
  by (auto simp: df_filtered_filter load_rows_total_price load_data_def)

theorem total_price_invariant_witness:
  "df_filtered (load_rows four_draws 4) [''South''] [''Books'', ''Electronics'']
     = [load_row four_draws 1, load_row four_draws 3]
   \<and> TotalPrice (load_row four_draws 3) = 46
   \<and> TotalPrice (load_row four_draws 3)
       = of_int (Quantity (load_row four_draws 3)) * UnitPrice (load_row four_draws 3)
   \<and> Quantity (load_row four_draws 3) = 4
   \<and> UnitPrice (load_row four_draws 3) = 23 / 2"
proof -
  have v: "df_filtered (load_rows four_draws 4) [''South''] [''Books'', ''Electronics'']
      = [load_row four_draws 1, load_row four_draws 3]"
    by code_simp
  have r: "load_row four_draws 3
      \<in> set (df_filtered (load_rows four_draws 4) [''South''] [''Books'', ''Electronics''])"
    by (simp add: v)
  have f: "TotalPrice (load_row four_draws 3) = 46" "Quantity (load_row four_draws 3) = 4"
    "UnitPrice (load_row four_draws 3) = 23 / 2"
    by code_simp+
  from total_price_invariant
    [of four_draws 4 "[''South'']" "[''Books'', ''Electronics'']" "[]"] r
  have "TotalPrice (load_row four_draws 3)
      = of_int (Quantity (load_row four_draws 3)) * UnitPrice (load_row four_draws 3)"
    by blast
  with v f show ?thesis
    by simp
qed

text \<open>
  C9. The order identifiers of the loaded table are \<open>1, \<dots>, n\<close>, one per row, so in
  every filtered view of it the number of distinct identifiers is the number of rows;
  on the view with no rows both are 0.
\<close>

theorem total_orders_counts_rows:
  "total_orders (df_filtered (load_rows g n) regions categories) =
     length (df_filtered (load_rows g n) regions categories)
   \<and> total_orders (df_filtered (load_data g) regions categories) =
     length (df_filtered (load_data g) regions categories)
   \<and> total_orders [] = 0"
proof (intro conjI)
  have rows: "total_orders (df_filtered (load_rows g m) regions categories) =
     length (df_filtered (load_rows g m) regions categories)" for m
  proof -
    have "distinct (map OrderID (df_filtered (load_rows g m) regions categories))"
      unfolding df_filtered_filter by (rule distinct_map_filter) (rule distinct_OrderID)
    then show ?thesis
      by (simp add: total_orders_def nunique_distinct)
  qed
  show "total_orders (df_filtered (load_rows g n) regions categories) =
     length (df_filtered (load_rows g n) regions categories)"
    by (rule rows)
  show "total_orders (df_filtered (load_data g) regions categories) =
     length (df_filtered (load_data g) regions categories)"
    unfolding load_data_def by (rule rows)
  show "total_orders [] = 0"
    by (simp add: total_orders_def nunique_def)
qed

section \<open>The KPIs of an empty view\<close>

text \<open>
  C1, as the script behaves. When one of the two selections is empty the filtered view
  has no rows, the total sales is 0 and the number of orders is 0; the average order
  value is NaN, the mean of an empty column. None of the three computations has an
  error result.
\<close>

theorem empty_selection_kpis:
  "regions = [] \<or> categories = [] \<Longrightarrow>
     df_filtered df regions categories = []
     \<and> total_sales (df_filtered df regions categories) = 0
     \<and> total_orders (df_filtered df regions categories) = 0
     \<and> avg_order_value (df_filtered df regions categories) = NaN"
proof -
  assume "regions = [] \<or> categories = []"
  then have e: "df_filtered df regions categories = []"
    by (auto simp: df_filtered_filter)
  show ?thesis
    by (simp add: e total_sales_def series_sum_def total_orders_def nunique_def
        avg_order_value_def series_mean_def)
qed

theorem empty_selection_kpis_witness:
  "df_filtered (load_rows four_draws 4) [''North'', ''South''] [] = []
   \<and> total_sales (df_filtered (load_rows four_draws 4) [''North'', ''South''] []) = 0
   \<and> total_orders (df_filtered (load_rows four_draws 4) [''North'', ''South''] []) = 0
   \<and> avg_order_value (df_filtered (load_rows four_draws 4) [''North'', ''South''] []) = NaN"
  by (rule empty_selection_kpis [of "[''North'', ''South'']" "[]" "load_rows four_draws 4"])
    simp

text \<open>
  The claim as written asks for a mean that is zero or absent, not NaN. With no region
  selected the view of the four-row table is empty and its mean is NaN, which is not the
  number 0.
\<close>

theorem empty_selection_mean_is_nan:
  "df_filtered (load_rows four_draws 4) [] [''Electronics'', ''Books''] = []
   \<and> avg_order_value (df_filtered (load_rows four_draws 4) [] [''Electronics'', ''Books''])
       = NaN
   \<and> avg_order_value (df_filtered (load_rows four_draws 4) [] [''Electronics'', ''Books''])
       \<noteq> Fin 0"
  by code_simp

section \<open>Group-by sums\<close>

lemma groupby_sum_keys: "map fst (groupby_sum key col df) = sort (remdups (map key df))"
  by (simp add: groupby_sum_def groupby_def o_def)

lemma groupby_sum_values:
  "map snd (groupby_sum key col df) =
     map (\<lambda>k. sum_list (map col (filter (\<lambda>r. key r = k) df))) (sort (remdups (map key df)))"
  by (simp add: groupby_sum_def groupby_def o_def)

lemma groupby_sum_entry:
  "(k, s) \<in> set (groupby_sum key col df) \<longleftrightarrow>
     k \<in> key ` set df \<and> s = sum_list (map col (filter (\<lambda>r. key r = k) df))"
  by (auto simp: groupby_sum_def groupby_def)

lemma groupby_sum_distinct: "distinct (map fst (groupby_sum key col df))"
  by (simp add: groupby_sum_keys)

lemma groupby_sum_map_of:
  "map_of (groupby_sum key col df) k =
     (if k \<in> key ` set df then Some (sum_list (map col (filter (\<lambda>r. key r = k) df))) else None)"
proof (cases "k \<in> key ` set df")
  case True
  then have "(k, sum_list (map col (filter (\<lambda>r. key r = k) df))) \<in> set (groupby_sum key col df)"
    by (simp add: groupby_sum_entry)
  with True show ?thesis
    by (simp add: groupby_sum_distinct)
next
  case False
  then have "k \<notin> fst ` set (groupby_sum key col df)"
    using groupby_sum_keys [of key col df] by (metis image_set set_remdups set_sort)
  with False show ?thesis
    by (simp add: map_of_eq_None_iff)
qed

text \<open>One value \<open>c\<close> at the key \<open>a\<close> and zero elsewhere sums to \<open>c\<close> over distinct keys.\<close>

lemma sum_list_delta:
  fixes c :: "'v::comm_monoid_add"
  shows "distinct ks \<Longrightarrow> a \<in> set ks \<Longrightarrow> (\<Sum>k\<leftarrow>ks. if a = k then c else 0) = c"
proof (induction ks)
  case Nil
  then show ?case by simp
next
  case (Cons k ks)
  have absent: "b \<notin> set ls \<Longrightarrow> (\<Sum>k\<leftarrow>ls. if b = k then c else 0) = 0"
    for b and ls :: "'a list"
    by (induction ls) auto
  show ?case
  proof (cases "a = k")
    case True
    with Cons.prems show ?thesis by (simp add: absent)
  next
    case False
    with Cons show ?thesis by simp
  qed
qed

text \<open>Splitting the rows by key and adding the group sums adds every row once.\<close>

lemma sum_list_groups:
  fixes col :: "'r \<Rightarrow> 'v::comm_monoid_add"
  assumes "distinct ks" and "key ` set xs \<subseteq> set ks"
  shows "(\<Sum>k\<leftarrow>ks. sum_list (map col (filter (\<lambda>r. key r = k) xs))) = sum_list (map col xs)"
  using assms(2)
proof (induction xs)
  case Nil
  then show ?case by simp
next
  case (Cons x xs)
  let ?S = "\<lambda>k. sum_list (map col (filter (\<lambda>r. key r = k) xs))"
  have "(\<Sum>k\<leftarrow>ks. sum_list (map col (filter (\<lambda>r. key r = k) (x # xs))))
      = (\<Sum>k\<leftarrow>ks. (if key x = k then col x else 0) + ?S k)"
    by (intro arg_cong[where f=sum_list] map_cong) auto
  also have "\<dots> = (\<Sum>k\<leftarrow>ks. if key x = k then col x else 0) + (\<Sum>k\<leftarrow>ks. ?S k)"
    by (simp add: sum_list_addf)
  also have "\<dots> = col x + sum_list (map col xs)"
    using Cons assms(1) by (simp add: sum_list_delta)
  finally show ?case by simp
qed

lemma groupby_sum_total:
  fixes col :: "'r \<Rightarrow> 'v::comm_monoid_add"
  shows "sum_list (map snd (groupby_sum key col df)) = sum_list (map col df)"
  unfolding groupby_sum_values
  by (simp add: o_def sum_list_groups)

text \<open>The groups of a group-by hold every row of the frame exactly once.\<close>

lemma groupby_partition: "mset (concat (map snd (groupby key df))) = mset df"
proof -
  let ?ks = "sort (remdups (map key df))"
  have "mset (concat (map snd (groupby key df)))
      = (\<Sum>k\<leftarrow>?ks. mset (filter (\<lambda>r. key r = k) df))"
    by (simp add: groupby_def mset_concat o_def)
  also have "\<dots> = (\<Sum>k\<leftarrow>?ks. sum_list (map (\<lambda>r. {#r#}) (filter (\<lambda>r. key r = k) df)))"
    by simp
  also have "\<dots> = sum_list (map (\<lambda>r. {#r#}) df)"
    by (rule sum_list_groups) simp_all
  finally show ?thesis
    by simp
qed

text \<open>
  C5, as the script behaves. The categories of the aggregation split a filtered view:
  every row of the view is in exactly one group, and the entry of a category is the sum
  of \<^verbatim>\<open>TotalPrice\<close> over the rows of that category. So when the additions are exact,
  the per-category sums add up to the total sales of the view.
\<close>

theorem category_sums_exact:
  "mset (concat (map snd (groupby Category (df_filtered df regions categories))))
     = mset (df_filtered df regions categories)
   \<and> map_of (sales_by_category (df_filtered df regions categories)) c =
       (if c \<in> Category ` set (df_filtered df regions categories)
        then Some (sum_list (map TotalPrice
               (filter (\<lambda>r. Category r = c) (df_filtered df regions categories))))
        else None)
   \<and> sum_list (map snd (sales_by_category (df_filtered df regions categories)))
       = total_sales (df_filtered df regions categories)"
proof (intro conjI)
  show "mset (concat (map snd (groupby Category (df_filtered df regions categories))))
     = mset (df_filtered df regions categories)"
    by (rule groupby_partition)
  show "map_of (sales_by_category (df_filtered df regions categories)) c =
       (if c \<in> Category ` set (df_filtered df regions categories)
        then Some (sum_list (map TotalPrice
               (filter (\<lambda>r. Category r = c) (df_filtered df regions categories))))
        else None)"
    unfolding sales_by_category_def by (rule groupby_sum_map_of)
  show "sum_list (map snd (sales_by_category (df_filtered df regions categories)))
       = total_sales (df_filtered df regions categories)"
    by (simp add: sales_by_category_def total_sales_def series_sum_def groupby_sum_total)
qed

text \<open>
  The claim as written does not hold of the sums the program computes, where every
  addition is rounded to binary64. On the three-row view the total sales, added in row
  order, is 63.38999999999999; the three per-category sums are the three prices, and
  adding them in the order of the aggregation gives 63.39, while their exact sum is
  not a binary64 number at all.
\<close>

theorem category_sums_differ_in_float64:
  "df_filtered (load_rows three_draws 3) [''North''] [''Books'', ''Clothing'', ''Electronics'']
     = load_rows three_draws 3
   \<and> total_sales_f64 (load_rows three_draws 3) = 8921349386844241 / 140737488355328
   \<and> sales_by_category_f64 (load_rows three_draws 3) =
       [(''Books'', 5685794529555251 / 562949953421312),
        (''Clothing'', 2343279181116211 / 70368744177664),
        (''Electronics'', 5626684784446013 / 281474976710656)]
   \<and> f64_sum (map snd (sales_by_category_f64 (load_rows three_draws 3)))
       = 4460674693422121 / 70368744177664
   \<and> sum_list (map snd (sales_by_category_f64 (load_rows three_draws 3)))
       = 35685397547376965 / 562949953421312
   \<and> f64_sum (map snd (sales_by_category_f64 (load_rows three_draws 3)))
       \<noteq> total_sales_f64 (load_rows three_draws 3)
   \<and> sum_list (map snd (sales_by_category_f64 (load_rows three_draws 3)))
       \<noteq> total_sales_f64 (load_rows three_draws 3)"
proof -
  let ?a = "5685794529555251 / 562949953421312 :: real"
  let ?b = "5626684784446013 / 281474976710656 :: real"
  let ?c = "2343279181116211 / 70368744177664 :: real"
  have v: "df_filtered (load_rows three_draws 3) [''North'']
      [''Books'', ''Clothing'', ''Electronics''] = load_rows three_draws 3"
    by code_simp
  have prices: "map TotalPrice (load_rows three_draws 3) = [?a, ?b, ?c]"
    by code_simp
  have total: "f64_sum [?a, ?b, ?c] = 8921349386844241 / 140737488355328"
    by code_simp
  have groups: "map (\<lambda>(k, rows). (k, map TotalPrice rows))
      (groupby Category (load_rows three_draws 3))
      = [(''Books'', [?a]), (''Clothing'', [?c]), (''Electronics'', [?b])]"
    by code_simp
  have one: "f64_sum [?a] = ?a" "f64_sum [?b] = ?b" "f64_sum [?c] = ?c"
    by code_simp+
  have cats: "sales_by_category_f64 (load_rows three_draws 3) =
      [(''Books'', ?a), (''Clothing'', ?c), (''Electronics'', ?b)]"
  proof -
    have "sales_by_category_f64 (load_rows three_draws 3)
        = map (\<lambda>(k, ps). (k, f64_sum ps))
            (map (\<lambda>(k, rows). (k, map TotalPrice rows))
               (groupby Category (load_rows three_draws 3)))"
      by (simp add: sales_by_category_f64_def split_beta)
    then show ?thesis
      by (simp add: groups one)
  qed
  have again: "f64_sum [?a, ?c, ?b] = 4460674693422121 / 70368744177664"
    by code_simp
  have exact: "sum_list [?a, ?c, ?b] = 35685397547376965 / 562949953421312"
    by simp
  have ne1: "(4460674693422121 / 70368744177664 :: real) \<noteq> 8921349386844241 / 140737488355328"
    by simp
  have ne2: "(35685397547376965 / 562949953421312 :: real) \<noteq> 8921349386844241 / 140737488355328"
    by simp
  have tot: "total_sales_f64 (load_rows three_draws 3) = 8921349386844241 / 140737488355328"
    by (simp only: total_sales_f64_def prices total)
  have fs: "f64_sum (map snd (sales_by_category_f64 (load_rows three_draws 3)))
      = 4460674693422121 / 70368744177664"
    by (simp only: cats list.map snd_conv again)
  have es: "sum_list (map snd (sales_by_category_f64 (load_rows three_draws 3)))
      = 35685397547376965 / 562949953421312"
    by (simp only: cats list.map snd_conv exact)
  show ?thesis
    unfolding tot fs es using v cats ne1 ne2 by (simp only: simp_thms)
qed

text \<open>
  C8. The region aggregation of a filtered view has one entry for each region that has a
  row in the view and no other entry: looking a region up gives the sum of its rows, or
  nothing (not a zero) when no row of the view has that region. The same holds for the
  pairs of day and category in the aggregation by day and category, so a category with
  no row on a day has no entry for that day.
\<close>

theorem groups_present_only:
  "distinct (map fst (sales_by_region (df_filtered df regions categories)))
   \<and> set (map fst (sales_by_region (df_filtered df regions categories)))
       = Region ` set (df_filtered df regions categories)
   \<and> map_of (sales_by_region (df_filtered df regions categories)) k =
       (if k \<in> Region ` set (df_filtered df regions categories)
        then Some (sum_list (map TotalPrice
               (filter (\<lambda>r. Region r = k) (df_filtered df regions categories))))
        else None)
   \<and> distinct (map fst (sales_trend_category (df_filtered df regions categories)))
   \<and> set (map fst (sales_trend_category (df_filtered df regions categories)))
       = (\<lambda>r. (dt_date (Date r), Category r)) ` set (df_filtered df regions categories)
   \<and> map_of (sales_trend_category (df_filtered df regions categories)) (d, c) =
       (if (d, c) \<in> (\<lambda>r. (dt_date (Date r), Category r)) ` set (df_filtered df regions categories)
        then Some (sum_list (map TotalPrice
               (filter (\<lambda>r. (dt_date (Date r), Category r) = (d, c))
                  (df_filtered df regions categories))))
        else None)"
  unfolding sales_by_region_def sales_trend_category_def
  by (intro conjI groupby_sum_distinct groupby_sum_map_of) (simp_all add: groupby_sum_keys)

section \<open>The two product rankings\<close>

lemma groupby_sum_strict_sorted: "sorted_wrt (<) (map fst (groupby_sum key col df))"
  by (simp add: groupby_sum_keys strict_sorted_iff)

lemma groupby_sum_length: "length (groupby_sum key col df) = card (key ` set df)"
proof -
  have "length (groupby_sum key col df) = length (map fst (groupby_sum key col df))"
    by simp
  also have "\<dots> = card (set (map key df))"
    unfolding groupby_sum_keys by (simp add: length_remdups_card_conv)
  finally show ?thesis by simp
qed

text \<open>
  Ties in a list: when the entries of each single value are in \<open>R\<close>-order, any two
  entries of equal value are.
\<close>

lemma sorted_wrt_ties:
  assumes "\<And>c. sorted_wrt R (filter (\<lambda>y. f y = c) xs)"
  shows "sorted_wrt (\<lambda>a b. f a = f b \<longrightarrow> R a b) xs"
  using assms
proof (induction xs)
  case Nil
  then show ?case by simp
next
  case (Cons x xs)
  have tl: "sorted_wrt R (filter (\<lambda>y. f y = c) xs)" for c
    using Cons.prems [of c] by (cases "f x = c") simp_all
  have hd: "R x y" if "y \<in> set xs" "f x = f y" for y
    using Cons.prems [of "f x"] that by simp
  from Cons.IH [OF tl] hd show ?case by simp
qed

lemma sort_desc_sorted:
  fixes s :: "('k \<times> 'v::linordered_ab_group_add) list"
  shows "sorted_wrt (\<lambda>a b. snd b \<le> snd a) (sort_key (\<lambda>(k, v). - v) s)"
proof -
  have "sorted (map (\<lambda>(k, v). - v) (sort_key (\<lambda>(k, v). - v) s))"
    by (rule sorted_sort_key)
  then show ?thesis
    by (simp add: sorted_map split_beta)
qed

lemma sort_desc_stable:
  fixes s :: "('k \<times> 'v::linordered_ab_group_add) list"
  shows "filter (\<lambda>e. snd e = c) (sort_key (\<lambda>(k, v). - v) s) = filter (\<lambda>e. snd e = c) s"
proof -
  have eq: "(\<lambda>e::'k \<times> 'v. snd e = c) = (\<lambda>e. (case e of (k, v) \<Rightarrow> - v) = - c)"
    by (auto simp: fun_eq_iff)
  show ?thesis
    unfolding eq by (rule sort_key_stable)
qed

lemma sort_desc_ties:
  fixes s :: "('k::linorder \<times> 'v::linordered_ab_group_add) list"
  assumes "sorted_wrt (<) (map fst s)"
  shows "sorted_wrt (\<lambda>a b. snd a = snd b \<longrightarrow> fst a < fst b) (sort_key (\<lambda>(k, v). - v) s)"
proof (rule sorted_wrt_ties)
  fix c
  from assms have "sorted_wrt (\<lambda>a b. fst a < fst b) s"
    by (simp add: sorted_wrt_map)
  then have "sorted_wrt (\<lambda>a b. fst a < fst b) (filter (\<lambda>e. snd e = c) s)"
    by (rule sorted_wrt_filter)
  then show "sorted_wrt (\<lambda>a b. fst a < fst b)
      (filter (\<lambda>e. snd e = c) (sort_key (\<lambda>(k, v). - v) s))"
    by (simp only: sort_desc_stable)
qed

lemma nlargest_length: "length (nlargest n s) = min n (length s)"
  by (simp add: nlargest_def min.commute)

lemma nlargest_subset: "set (nlargest n s) \<subseteq> set s"
  unfolding nlargest_def using set_take_subset [of n "sort_key (\<lambda>(k, v). - v) s"] by simp

lemma nlargest_distinct: "distinct (map fst s) \<Longrightarrow> distinct (map fst (nlargest n s))"
proof -
  assume "distinct (map fst s)"
  then have "distinct (map fst (sort_key (\<lambda>(k, v). - v) s))"
    by (simp add: distinct_map)
  then show ?thesis
    unfolding nlargest_def by (simp add: take_map [symmetric] del: take_map)
qed

lemma nlargest_sorted: "sorted_wrt (\<lambda>a b. snd b \<le> snd a) (nlargest n s)"
  unfolding nlargest_def by (rule sorted_wrt_take) (rule sort_desc_sorted)

lemma nlargest_ties:
  fixes s :: "('k::linorder \<times> 'v::linordered_ab_group_add) list"
  shows "sorted_wrt (<) (map fst s) \<Longrightarrow>
     sorted_wrt (\<lambda>a b. snd a = snd b \<longrightarrow> fst a < fst b) (nlargest n s)"
  unfolding nlargest_def by (rule sorted_wrt_take) (rule sort_desc_ties)

lemma nlargest_keeps_first:
  "prefix (filter (\<lambda>e. snd e = c) (nlargest n s)) (filter (\<lambda>e. snd e = c) s)"
proof -
  have "prefix (filter (\<lambda>e. snd e = c) (nlargest n s))
      (filter (\<lambda>e. snd e = c) (sort_key (\<lambda>(k, v). - v) s))"
    unfolding nlargest_def by (rule filter_mono_prefix) (rule take_is_prefix)
  then show ?thesis
    by (simp only: sort_desc_stable)
qed

text \<open>Whatever the cut leaves out comes after everything it keeps.\<close>

lemma take_sorted_wrt_rest:
  assumes "sorted_wrt R xs" and "y \<in> set (take n xs)" and "x \<in> set xs" and "x \<notin> set (take n xs)"
  shows "R y x"
proof -
  from assms(3,4) have "x \<in> set (drop n xs)"
    by (metis Un_iff append_take_drop_id set_append)
  moreover from assms(1) have "sorted_wrt R (take n xs @ drop n xs)"
    by simp
  ultimately show ?thesis
    using assms(2) unfolding sorted_wrt_append by blast
qed

lemma nlargest_rest_below:
  assumes "x \<in> set s" and "x \<notin> set (nlargest n s)" and "y \<in> set (nlargest n s)"
  shows "snd x \<le> snd y"
  using take_sorted_wrt_rest [OF sort_desc_sorted [of s], of y n x] assms
  by (simp add: nlargest_def)

lemma nlargest_tie_kept:
  fixes s :: "('k::linorder \<times> 'v::linordered_ab_group_add) list"
  assumes keys: "sorted_wrt (<) (map fst s)"
    and "a \<in> set s" and "b \<in> set (nlargest n s)" and "snd a = snd b" and "fst a < fst b"
  shows "a \<in> set (nlargest n s)"
proof (rule ccontr)
  assume out: "a \<notin> set (nlargest n s)"
  have "sorted_wrt (\<lambda>a b. snd a = snd b \<longrightarrow> fst a < fst b) (sort_key (\<lambda>(k, v). - v) s)"
    using keys by (rule sort_desc_ties)
  from take_sorted_wrt_rest [OF this, of b n a] assms out
  have "fst b < fst a"
    by (simp add: nlargest_def)
  with assms(5) show False by simp
qed

lemma nlargest_top_n_desc:
  "distinct (map fst s) \<Longrightarrow> top_n_desc n s (nlargest n s)"
  unfolding top_n_desc_def
  using nlargest_rest_below [of _ s n]
  by (auto simp: nlargest_length nlargest_distinct nlargest_sorted dest: subsetD [OF nlargest_subset])


text \<open>
  C6. For a filtered view \<open>v\<close>, the list of products by sales value is a top-10 list of
  the per-product sums of \<^verbatim>\<open>TotalPrice\<close>, and the list by quantity is a top-10 list
  of the per-product sums of \<^verbatim>\<open>Quantity\<close>: ten entries (all products when the view
  has fewer than ten), each a product of the view with its sum, by descending sum, and
  no product left out has a larger sum than a listed one. The two lists come from two
  different columns, and there is a view on which they hold different products.
\<close>

theorem top10_lists:
  assumes v: "v = df_filtered df regions categories"
  shows "top_n_desc 10 (groupby_sum Product TotalPrice v) (product_sales v)
   \<and> top_n_desc 10 (groupby_sum Product Quantity v) (quantity_by_product v)
   \<and> length (groupby_sum Product TotalPrice v) = card (Product ` set v)
   \<and> length (groupby_sum Product Quantity v) = card (Product ` set v)
   \<and> map_of (groupby_sum Product TotalPrice v) p =
       (if p \<in> Product ` set v
        then Some (sum_list (map TotalPrice (filter (\<lambda>r. Product r = p) v))) else None)
   \<and> map_of (groupby_sum Product Quantity v) p =
       (if p \<in> Product ` set v
        then Some (sum_list (map Quantity (filter (\<lambda>r. Product r = p) v))) else None)
   \<and> (\<exists>df' regions' categories'.
         set (map fst (product_sales (df_filtered df' regions' categories')))
           \<noteq> set (map fst (quantity_by_product (df_filtered df' regions' categories'))))"
proof (intro conjI)
  show "top_n_desc 10 (groupby_sum Product TotalPrice v) (product_sales v)"
    unfolding product_sales_def by (rule nlargest_top_n_desc) (rule groupby_sum_distinct)
  show "top_n_desc 10 (groupby_sum Product Quantity v) (quantity_by_product v)"
    unfolding quantity_by_product_def by (rule nlargest_top_n_desc) (rule groupby_sum_distinct)
  show "length (groupby_sum Product TotalPrice v) = card (Product ` set v)"
    "length (groupby_sum Product Quantity v) = card (Product ` set v)"
    by (rule groupby_sum_length)+
  show "map_of (groupby_sum Product TotalPrice v) p =
       (if p \<in> Product ` set v
        then Some (sum_list (map TotalPrice (filter (\<lambda>r. Product r = p) v))) else None)"
    "map_of (groupby_sum Product Quantity v) p =
       (if p \<in> Product ` set v
        then Some (sum_list (map Quantity (filter (\<lambda>r. Product r = p) v))) else None)"
    by (rule groupby_sum_map_of)+
  have "set (map fst (product_sales (df_filtered (load_rows eleven_draws 11) [''North''] [''Books''])))
      \<noteq> set (map fst (quantity_by_product
            (df_filtered (load_rows eleven_draws 11) [''North''] [''Books''])))"
    by code_simp
  then show "\<exists>df' regions' categories'.
         set (map fst (product_sales (df_filtered df' regions' categories')))
           \<noteq> set (map fst (quantity_by_product (df_filtered df' regions' categories')))"
    by blast
qed

theorem top10_lists_witness:
  "product_sales (df_filtered (load_rows eleven_draws 11) [''North''] [''Books'']) =
     [(''Product_11'', 95), (''Product_10'', 189 / 2), (''Product_9'', 94),
      (''Product_8'', 187 / 2), (''Product_7'', 93), (''Product_6'', 185 / 2),
      (''Product_5'', 92), (''Product_4'', 183 / 2), (''Product_3'', 91),
      (''Product_2'', 181 / 2)]
   \<and> quantity_by_product (df_filtered (load_rows eleven_draws 11) [''North''] [''Books'']) =
     [(''Product_1'', 9), (''Product_10'', 1), (''Product_11'', 1),
      (''Product_2'', 1), (''Product_3'', 1), (''Product_4'', 1),
      (''Product_5'', 1), (''Product_6'', 1), (''Product_7'', 1),
      (''Product_8'', 1)]
   \<and> top_n_desc 10
        (groupby_sum Product TotalPrice
           (df_filtered (load_rows eleven_draws 11) [''North''] [''Books'']))
        (product_sales (df_filtered (load_rows eleven_draws 11) [''North''] [''Books'']))
   \<and> length (groupby_sum Product TotalPrice
        (df_filtered (load_rows eleven_draws 11) [''North''] [''Books''])) = 11
   \<and> map_of (groupby_sum Product TotalPrice
        (df_filtered (load_rows eleven_draws 11) [''North''] [''Books''])) ''Product_1''
       = Some 90"
proof -
  let ?v = "df_filtered (load_rows eleven_draws 11) [''North''] [''Books'']"
  have a: "product_sales ?v =
     [(''Product_11'', 95), (''Product_10'', 189 / 2), (''Product_9'', 94),
      (''Product_8'', 187 / 2), (''Product_7'', 93), (''Product_6'', 185 / 2),
      (''Product_5'', 92), (''Product_4'', 183 / 2), (''Product_3'', 91),
      (''Product_2'', 181 / 2)]"
    by code_simp
  have b: "quantity_by_product ?v =
     [(''Product_1'', 9), (''Product_10'', 1), (''Product_11'', 1),
      (''Product_2'', 1), (''Product_3'', 1), (''Product_4'', 1),
      (''Product_5'', 1), (''Product_6'', 1), (''Product_7'', 1),
      (''Product_8'', 1)]"
    by code_simp
  have c: "length (groupby_sum Product TotalPrice ?v) = 11"
    by code_simp
  have d: "map_of (groupby_sum Product TotalPrice ?v) ''Product_1'' = Some 90"
    by code_simp
  from top10_lists [OF refl, of "load_rows eleven_draws 11" "[''North'']" "[''Books'']"]
  have "top_n_desc 10 (groupby_sum Product TotalPrice ?v) (product_sales ?v)"
    by blast
  with a b c d show ?thesis
    by (simp only: simp_thms)
qed


text \<open>
  C10. For a filtered view \<open>v\<close>: the group-by step lists the products by strictly
  ascending name; among the entries of one value, each ranking holds an initial part
  of the group-by order, in that order; so within a ranking, of two products with equal
  sums the one with the earlier name comes first, and when a product is listed every
  product with the same sum and an earlier name is listed too.
\<close>

theorem top10_tie_break:
  assumes v: "v = df_filtered df regions categories"
  shows "sorted_wrt (<) (map fst (groupby_sum Product TotalPrice v))
   \<and> sorted_wrt (<) (map fst (groupby_sum Product Quantity v))
   \<and> prefix (filter (\<lambda>e. snd e = c) (product_sales v))
        (filter (\<lambda>e. snd e = c) (groupby_sum Product TotalPrice v))
   \<and> prefix (filter (\<lambda>e. snd e = q) (quantity_by_product v))
        (filter (\<lambda>e. snd e = q) (groupby_sum Product Quantity v))
   \<and> sorted_wrt (\<lambda>a b. snd a = snd b \<longrightarrow> fst a < fst b) (product_sales v)
   \<and> sorted_wrt (\<lambda>a b. snd a = snd b \<longrightarrow> fst a < fst b) (quantity_by_product v)
   \<and> (\<forall>a b. a \<in> set (groupby_sum Product TotalPrice v) \<and> b \<in> set (product_sales v)
          \<and> snd a = snd b \<and> fst a < fst b \<longrightarrow> a \<in> set (product_sales v))
   \<and> (\<forall>a b. a \<in> set (groupby_sum Product Quantity v) \<and> b \<in> set (quantity_by_product v)
          \<and> snd a = snd b \<and> fst a < fst b \<longrightarrow> a \<in> set (quantity_by_product v))"
proof (intro conjI allI impI)
  show "sorted_wrt (<) (map fst (groupby_sum Product TotalPrice v))"
    "sorted_wrt (<) (map fst (groupby_sum Product Quantity v))"
    by (rule groupby_sum_strict_sorted)+
  show "prefix (filter (\<lambda>e. snd e = c) (product_sales v))
        (filter (\<lambda>e. snd e = c) (groupby_sum Product TotalPrice v))"
    unfolding product_sales_def by (rule nlargest_keeps_first)
  show "prefix (filter (\<lambda>e. snd e = q) (quantity_by_product v))
        (filter (\<lambda>e. snd e = q) (groupby_sum Product Quantity v))"
    unfolding quantity_by_product_def by (rule nlargest_keeps_first)
  show "sorted_wrt (\<lambda>a b. snd a = snd b \<longrightarrow> fst a < fst b) (product_sales v)"
    unfolding product_sales_def by (rule nlargest_ties) (rule groupby_sum_strict_sorted)
  show "sorted_wrt (\<lambda>a b. snd a = snd b \<longrightarrow> fst a < fst b) (quantity_by_product v)"
    unfolding quantity_by_product_def by (rule nlargest_ties) (rule groupby_sum_strict_sorted)
next
  fix a b :: "string \<times> real"
  assume "a \<in> set (groupby_sum Product TotalPrice v) \<and> b \<in> set (product_sales v)
          \<and> snd a = snd b \<and> fst a < fst b"
  then show "a \<in> set (product_sales v)"
    unfolding product_sales_def
    using nlargest_tie_kept [OF groupby_sum_strict_sorted, of a Product TotalPrice v b 10]
    by blast
next
  fix a b :: "string \<times> int"
  assume "a \<in> set (groupby_sum Product Quantity v) \<and> b \<in> set (quantity_by_product v)
          \<and> snd a = snd b \<and> fst a < fst b"
  then show "a \<in> set (quantity_by_product v)"
    unfolding quantity_by_product_def
    using nlargest_tie_kept [OF groupby_sum_strict_sorted, of a Product Quantity v b 10]
    by blast
qed

theorem top10_tie_break_witness:
  "map fst (groupby_sum Product Quantity
       (df_filtered (load_rows eleven_draws 11) [''North''] [''Books''])) =
     [''Product_1'', ''Product_10'', ''Product_11'', ''Product_2'', ''Product_3'',
      ''Product_4'', ''Product_5'', ''Product_6'', ''Product_7'', ''Product_8'', ''Product_9'']
   \<and> (''Product_10'', 1) \<in> set (groupby_sum Product Quantity
         (df_filtered (load_rows eleven_draws 11) [''North''] [''Books'']))
   \<and> (''Product_2'', 1) \<in> set (quantity_by_product
         (df_filtered (load_rows eleven_draws 11) [''North''] [''Books'']))
   \<and> ''Product_10'' < ''Product_2''
   \<and> (''Product_10'', 1) \<in> set (quantity_by_product
         (df_filtered (load_rows eleven_draws 11) [''North''] [''Books'']))
   \<and> filter (\<lambda>e. snd e = 1) (quantity_by_product
         (df_filtered (load_rows eleven_draws 11) [''North''] [''Books''])) =
       [(''Product_10'', 1), (''Product_11'', 1), (''Product_2'', 1), (''Product_3'', 1),
        (''Product_4'', 1), (''Product_5'', 1), (''Product_6'', 1), (''Product_7'', 1),
        (''Product_8'', 1)]"
proof -
  let ?v = "df_filtered (load_rows eleven_draws 11) [''North''] [''Books'']"
  have k: "map fst (groupby_sum Product Quantity ?v) =
     [''Product_1'', ''Product_10'', ''Product_11'', ''Product_2'', ''Product_3'',
      ''Product_4'', ''Product_5'', ''Product_6'', ''Product_7'', ''Product_8'', ''Product_9'']"
    by code_simp
  have a: "(''Product_10'', 1) \<in> set (groupby_sum Product Quantity ?v)"
    by code_simp
  have b: "(''Product_2'', 1) \<in> set (quantity_by_product ?v)"
    by code_simp
  have lt: "''Product_10'' < ''Product_2''"
    by code_simp
  have f: "filter (\<lambda>e. snd e = 1) (quantity_by_product ?v) =
       [(''Product_10'', 1), (''Product_11'', 1), (''Product_2'', 1), (''Product_3'', 1),
        (''Product_4'', 1), (''Product_5'', 1), (''Product_6'', 1), (''Product_7'', 1),
        (''Product_8'', 1)]"
    by code_simp
  from top10_tie_break [OF refl, of "load_rows eleven_draws 11" "[''North'']" "[''Books'']"]
  have "\<forall>a b. a \<in> set (groupby_sum Product Quantity ?v) \<and> b \<in> set (quantity_by_product ?v)
          \<and> snd a = snd b \<and> fst a < fst b \<longrightarrow> a \<in> set (quantity_by_product ?v)"
    by blast
  from this [rule_format, of "(''Product_10'', 1)" "(''Product_2'', 1)"] a b lt
  have "(''Product_10'', 1) \<in> set (quantity_by_product ?v)"
    by simp
  with k a b lt f show ?thesis
    by (simp only: simp_thms)
qed

section \<open>Rounding to binary64\<close>

text \<open>
  \<open>floor_log2\<close> puts a positive real between two neighbouring powers of two, and
  \<open>round64\<close> returns a nearest number with a 53-bit significand.
\<close>

lemma bit_length_nonpos: "n \<le> 0 \<Longrightarrow> bit_length n = 0"
  by (subst bit_length.simps) simp

lemma bit_length_pos: "0 < n \<Longrightarrow> 0 < bit_length n"
proof (induction n rule: bit_length.induct)
  case (1 n)
  have "0 \<le> bit_length (n div 2)"
  proof (cases "n div 2 \<le> 0")
    case True
    then show ?thesis by (simp add: bit_length_nonpos)
  next
    case False
    with 1 show ?thesis by simp
  qed
  with "1.prems" show ?case
    by (subst bit_length.simps) simp
qed

lemma bit_length_bounds:
  "0 < n \<Longrightarrow> 2 ^ nat (bit_length n - 1) \<le> n \<and> n < 2 ^ nat (bit_length n)"
proof (induction n rule: bit_length.induct)
  case (1 n)
  show ?case
  proof (cases "n = 1")
    case True
    have "bit_length 1 = 1"
      by (subst bit_length.simps) (simp add: bit_length_nonpos)
    with True show ?thesis by simp
  next
    case False
    with "1.prems" have m: "0 < n div 2" by simp
    define b where "b = bit_length (n div 2)"
    have b: "0 < b"
      unfolding b_def using m by (rule bit_length_pos)
    from "1.IH" "1.prems" m have ih: "2 ^ nat (b - 1) \<le> n div 2" "n div 2 < 2 ^ nat b"
      by (simp_all add: b_def)
    have len: "bit_length n = b + 1"
      using "1.prems" by (subst bit_length.simps) (simp add: b_def)
    have p: "(2::int) ^ nat b = 2 * 2 ^ nat (b - 1)"
    proof -
      from b have "nat b = Suc (nat (b - 1))" by simp
      then show ?thesis by (simp only: power_Suc)
    qed
    have "2 ^ nat b \<le> n"
      using ih(1) p by linarith
    moreover have "n < 2 * 2 ^ nat b"
      using ih(2) by linarith
    moreover have "nat (b + 1) = Suc (nat b)"
      using b by simp
    ultimately show ?thesis
      by (simp add: len)
  qed
qed


lemma scale2_one_nonneg: "0 \<le> e \<Longrightarrow> scale2 1 e = 2 ^ nat e"
  by (simp add: scale2_def)

lemma scale2_one_nonpos: "e \<le> 0 \<Longrightarrow> scale2 1 e = 1 / 2 ^ nat (- e)"
  by (cases "e = 0") (simp_all add: scale2_def)

lemma floor_log2_bounds:
  assumes "0 < a"
  shows "scale2 1 (floor_log2 a) \<le> a \<and> a < scale2 1 (floor_log2 a + 1)"
proof (cases "1 \<le> a")
  case True
  define n where "n = \<lfloor>a\<rfloor>"
  from True have n: "0 < n"
    by (simp add: n_def)
  define k where "k = bit_length n - 1"
  from bit_length_pos [OF n] have k: "0 \<le> k"
    by (simp add: k_def)
  from bit_length_bounds [OF n] have b: "2 ^ nat k \<le> n" "n + 1 \<le> 2 ^ nat (k + 1)"
    by (simp_all add: k_def)
  have fl: "floor_log2 a = k"
    using True by (simp add: floor_log2_def k_def n_def)
  have "(2::real) ^ nat k \<le> of_int n"
    using b(1) by (metis of_int_le_iff of_int_numeral of_int_power)
  also have "\<dots> \<le> a"
    by (simp add: n_def)
  finally have lo: "(2::real) ^ nat k \<le> a" .
  have "a < of_int (n + 1)"
    by (simp add: n_def)
  also have "\<dots> \<le> (2::real) ^ nat (k + 1)"
    using b(2) by (metis of_int_le_iff of_int_numeral of_int_power)
  finally have hi: "a < (2::real) ^ nat (k + 1)" .
  from lo hi k show ?thesis
    by (simp add: fl scale2_one_nonneg)
next
  case False
  define y where "y = 1 / a"
  from False assms have y: "1 < y"
    by (simp add: y_def)
  define m where "m = \<lceil>y\<rceil> - 1"
  from y have m: "0 < m"
    by (simp add: m_def less_ceiling_iff)
  define j where "j = bit_length m"
  from bit_length_pos [OF m] have j: "0 < j"
    by (simp add: j_def)
  from bit_length_bounds [OF m] have b: "2 ^ nat (j - 1) \<le> m" "m + 1 \<le> 2 ^ nat j"
    by (simp_all add: j_def)
  have fl: "floor_log2 a = - j"
    using False by (simp add: floor_log2_def j_def m_def y_def)
  have "y \<le> of_int (m + 1)"
    by (simp add: m_def)
  also have "\<dots> \<le> (2::real) ^ nat j"
    using b(2) by (metis of_int_le_iff of_int_numeral of_int_power)
  finally have "y \<le> (2::real) ^ nat j" .
  then have lo: "1 / 2 ^ nat j \<le> a"
    using assms by (simp add: y_def field_simps)
  have "(2::real) ^ nat (j - 1) \<le> of_int m"
    using b(1) by (metis of_int_le_iff of_int_numeral of_int_power)
  also have "\<dots> < y"
    by (simp add: m_def ceiling_correct)
  finally have "(2::real) ^ nat (j - 1) < y" .
  then have hi: "a < 1 / 2 ^ nat (j - 1)"
    using assms by (simp add: y_def field_simps)
  have "scale2 1 (- j) = 1 / 2 ^ nat j" "scale2 1 (- j + 1) = 1 / 2 ^ nat (j - 1)"
    using j by (simp_all add: scale2_one_nonpos)
  with lo hi show ?thesis
    by (simp add: fl)
qed


lemma round_half_even_near: "\<bar>of_int (round_half_even y) - y\<bar> \<le> 1 / 2"
  unfolding round_half_even_def Let_def by (simp; linarith)

lemma round_half_even_floor:
  "\<lfloor>y\<rfloor> \<le> round_half_even y \<and> round_half_even y \<le> \<lfloor>y\<rfloor> + 1"
  unfolding round_half_even_def Let_def by simp

lemma scale2_mult: "scale2 x e = x * scale2 1 e"
  by (simp add: scale2_def)

lemma scale2_one_pos: "0 < scale2 1 e"
  by (simp add: scale2_def)

lemma scale2_one_inverse: "scale2 1 (- e) * scale2 1 e = 1"
  by (cases "e = 0") (simp_all add: scale2_def)

lemma scale2_one_powi: "scale2 1 e = 2 powi e"
proof (cases "0 \<le> e")
  case True
  then show ?thesis
    by (simp add: scale2_def power_int_def)
next
  case False
  then show ?thesis
    by (simp add: scale2_def power_int_def power_one_over inverse_eq_divide)
qed

lemma scale2_one_add: "scale2 1 (d + e) = scale2 1 d * scale2 1 e"
  by (simp add: scale2_one_powi power_int_add)

text \<open>
  The result of \<open>round64\<close> is a whole number of units of \<open>2\<^sup>e\<close>, between \<open>2\<^sup>5\<^sup>2\<close> and
  \<open>2\<^sup>5\<^sup>3\<close> of them, and no further than half a unit from \<open>x\<close>.
\<close>

lemma round64_nearest:
  assumes "x \<noteq> 0"
  defines "e \<equiv> floor_log2 \<bar>x\<bar> - 52"
  defines "m \<equiv> round_half_even (scale2 \<bar>x\<bar> (- e))"
  shows "round64 x = sgn x * of_int m * scale2 1 e"
    and "2 ^ 52 \<le> m \<and> m \<le> 2 ^ 53"
    and "\<bar>round64 x - x\<bar> \<le> scale2 1 e / 2"
proof -
  define a where "a = \<bar>x\<bar>"
  define s where "s = scale2 a (- e)"
  from assms(1) have a: "0 < a"
    by (simp add: a_def)
  have r: "round64 x = sgn x * of_int m * scale2 1 e"
    using assms(1) scale2_mult [of "of_int m" e]
    by (simp add: round64_def Let_def e_def m_def)
  show "round64 x = sgn x * of_int m * scale2 1 e"
    by (rule r)
  have u: "scale2 1 (- e) * scale2 1 e = 1"
    by (rule scale2_one_inverse)
  have s_a: "s * scale2 1 e = a"
    using u by (simp add: s_def scale2_mult [of a] mult.assoc)
  have fl: "floor_log2 a = e + 52"
    by (simp add: e_def a_def)
  have "e + 52 + 1 = e + 53"
    by simp
  with floor_log2_bounds [OF a]
  have "scale2 1 (e + 52) \<le> a" "a < scale2 1 (e + 53)"
    by (simp_all only: fl)
  then have "scale2 1 (e + 52) * scale2 1 (- e) \<le> s" "s < scale2 1 (e + 53) * scale2 1 (- e)"
    using scale2_one_pos [of "- e"] by (simp_all add: s_def scale2_mult [of a])
  moreover have "scale2 1 (e + 52) * scale2 1 (- e) = 2 ^ 52"
    "scale2 1 (e + 53) * scale2 1 (- e) = 2 ^ 53"
    by (simp_all add: scale2_one_add [symmetric] scale2_one_nonneg)
  ultimately have range: "2 ^ 52 \<le> s" "s < 2 ^ 53"
    by simp_all
  have m_s: "m = round_half_even s"
    by (simp add: m_def s_def a_def)
  have "(2::int) ^ 52 \<le> \<lfloor>s\<rfloor>"
    using range(1) by (simp add: le_floor_iff)
  moreover have "\<lfloor>s\<rfloor> < (2::int) ^ 53"
    using range(2) by (simp add: floor_less_iff)
  moreover have "\<lfloor>s\<rfloor> \<le> m" "m \<le> \<lfloor>s\<rfloor> + 1"
    using round_half_even_floor [of s] by (simp_all only: m_s)
  ultimately show "2 ^ 52 \<le> m \<and> m \<le> 2 ^ 53"
    by linarith
  have x: "x = sgn x * a"
    by (simp add: a_def sgn_mult_abs)
  have "round64 x - x = sgn x * ((of_int m - s) * scale2 1 e)"
    using x by (simp add: r s_a [symmetric] algebra_simps)
  then have "\<bar>round64 x - x\<bar> = \<bar>of_int m - s\<bar> * scale2 1 e"
    using assms(1) scale2_one_pos [of e] by (simp add: abs_mult abs_sgn_eq)
  also have "\<dots> \<le> 1 / 2 * scale2 1 e"
    using round_half_even_near [of s] scale2_one_pos [of e]
    by (intro mult_right_mono) (simp_all add: m_s)
  finally show "\<bar>round64 x - x\<bar> \<le> scale2 1 e / 2"
    by simp
qed

end
